theory Spec2Isabelle
  imports Main "HOL-Library.Word"
begin

section \<open>Data model\<close>

text \<open>
  The keeper of \<^verbatim>\<open>src/cage_keeper.py\<close> is a class whose fields hold the run state, and
  whose methods read the chain through pymaker and submit transactions. The embedding
  makes each of these explicit:
  \<^item> the fields of \<^verbatim>\<open>CageKeeper\<close> are the record \<open>keeper\<close>;
  \<^item> everything one block invocation reads from the chain is the record \<open>chain\<close>;
  \<^item> every \<^verbatim>\<open>....transact(gas_price=...)\<close> is a value of the datatype \<open>call\<close>, and a
    method returns the list of calls it submits, in order.
  Amounts read from the chain (Wad, Ray, Rad) are unsigned 256-bit fixed-point numbers;
  they are modelled by their integer representation, a \<open>nat\<close>.
\<close>

type_synonym address = string

definition zero_address :: address where
  "zero_address = ''0x0000000000000000000000000000000000000000''"

text \<open>The mutating calls the keeper submits; an ilk is passed by its name.\<close>

datatype call =
    FlapYank nat
  | FlopYank nat
  | EndCage string
  | EndSnip string nat
  | EndSkip string nat
  | EndSkim string address
  | VowHeal nat
  | EndThaw
  | EndFlow string
  | EsmDeny address
  | EsmBurn

record auction_bid =
  bid_id :: nat
  guy :: address
  bid :: nat
  tab :: nat

text \<open>
  An auction contract as the keeper reads it: \<open>kicks\<close>, the \<open>bids\<close> mapping of the
  contract (bidder, bid, tab), and for a Clipper the result of \<^verbatim>\<open>active_auctions()\<close>.
\<close>

record auction_contract =
  contract_address :: address
  kicks :: nat
  bids :: "nat \<Rightarrow> address \<times> nat \<times> nat"
  active_auctions :: "auction_bid list"

text \<open>The classes \<^verbatim>\<open>cage_active_auctions\<close> tells apart with \<^verbatim>\<open>isinstance\<close>.\<close>

datatype parentObj =
    Clipper auction_contract
  | Flipper auction_contract
  | Flapper auction_contract
  | Flopper auction_contract

record collateral =
  ilk_name :: string
  clipper :: "auction_contract option"
  flipper :: "auction_contract option"

record ilk =
  name :: string
  rate :: nat
  spot :: nat
  ilk_art :: nat

record urn =
  urn_address :: address
  urn_ilk :: ilk
  ink :: nat
  art :: nat

text \<open>
  What one invocation of \<^verbatim>\<open>check_cage\<close> reads. \<open>end_when\<close> is the datetime that
  \<^verbatim>\<open>End.when()\<close> returns, \<open>end_wait\<close> the unsigned 256-bit integer of \<^verbatim>\<open>End.wait()\<close>, and
  \<open>block_timestamp\<close> the Unix time of the block, a Python int;
  \<open>collaterals\<close> are the values of \<^verbatim>\<open>dss.collaterals\<close> in the order of the dict, and
  \<open>get_urns\<close> gives the urns of the history provider for an ilk, by its name.
  \<open>raises_after = Some k\<close> says that an
  exception leaves the phase of this invocation once \<open>k\<close> transactions have been
  submitted (the source catches nothing, so the rest of the phase is not run);
  \<open>tx_fails\<close> says which transactions fail: pymaker's \<^verbatim>\<open>transact\<close> then returns
  \<^verbatim>\<open>None\<close>, which the keeper never looks at.
\<close>

text \<open>
  A Python \<^verbatim>\<open>datetime\<close>, as pymaker builds it from the seconds the End contract stores:
  whole seconds since the epoch, up to the last second of the year 9999.
\<close>

typedef datetime = "{n :: nat. n \<le> 253402300799}"
  morphisms total_seconds datetime_of_seconds
  by (rule exI[of _ 0]) simp

record chain =
  end_live :: bool
  end_when :: datetime
  end_wait :: "256 word"
  block_timestamp :: int
  collaterals :: "collateral list"
  flapper :: auction_contract
  flopper :: auction_contract
  vat_rate :: "string \<Rightarrow> nat"
  vat_spot :: "string \<Rightarrow> nat"
  vat_Art :: "string \<Rightarrow> nat"
  spotter_mat :: "string \<Rightarrow> nat"
  vat_dai_vow :: nat
  get_urns :: "string \<Rightarrow> urn list"
  raises_after :: "nat option"
  tx_fails :: "call \<Rightarrow> bool"

record arguments =
  previous_cage :: bool
  psm :: string
  max_errors_arg :: int

record keeper =
  arguments :: arguments
  max_errors :: int
  errors :: int
  cageFacilitated :: bool
  confirmations :: int
  terminated :: bool

section \<open>The keeper\<close>

text \<open>\<^verbatim>\<open>CageKeeper.__init__\<close>: the fields a run starts from.\<close>

definition init :: "arguments \<Rightarrow> keeper" where
  "init args =
     \<lparr>arguments = args,
      max_errors = max_errors_arg args,
      errors = 0,
      cageFacilitated = previous_cage args,
      confirmations = 0,
      terminated = False\<rparr>"

text \<open>\<^verbatim>\<open>Vat.ilk(name)\<close> and \<^verbatim>\<open>Flipper._bids(id)\<close>: the object pymaker builds from a read.\<close>

definition vat_ilk :: "chain \<Rightarrow> string \<Rightarrow> ilk" where
  "vat_ilk b n = \<lparr>name = n, rate = vat_rate b n, spot = vat_spot b n, ilk_art = vat_Art b n\<rparr>"

definition bids_of :: "auction_contract \<Rightarrow> nat \<Rightarrow> auction_bid" where
  "bids_of c i = (case bids c i of (g, bd, tb) \<Rightarrow> \<lparr>bid_id = i, guy = g, bid = bd, tab = tb\<rparr>)"

text \<open>
  Modelled from the spec: the fixed-point type Ray of pymaker.numeric is not under
  \<^verbatim>\<open>src/\<close>. A Ray is an integer scaled by \<open>10 ^ 27\<close>, a Wad one scaled by \<open>10 ^ 18\<close>;
  \<^verbatim>\<open>Ray(wad)\<close> rescales, and the product of two Rays is rounded down.
\<close>

definition Ray_of_Wad :: "nat \<Rightarrow> nat" where
  "Ray_of_Wad w = w * 10 ^ 9"

definition ray_mul :: "nat \<Rightarrow> nat \<Rightarrow> nat" where
  "ray_mul x y = (x * y) div 10 ^ 27"

subsection \<open>Auction aggregation\<close>

text \<open>The two \<^verbatim>\<open>for index in range(1, auction_count)\<close> loops of \<^verbatim>\<open>cage_active_auctions\<close>.\<close>

fun flip_loop :: "auction_contract \<Rightarrow> nat list \<Rightarrow> auction_bid list \<Rightarrow> auction_bid list" where
  "flip_loop c [] active = active"
| "flip_loop c (index # rest) active =
     (let b = bids_of c index in
      if guy b \<noteq> zero_address then
        (if bid b < tab b then flip_loop c rest (active @ [b]) else flip_loop c rest active)
      else flip_loop c rest active)"

fun yank_loop :: "auction_contract \<Rightarrow> nat list \<Rightarrow> auction_bid list \<Rightarrow> auction_bid list" where
  "yank_loop c [] active = active"
| "yank_loop c (index # rest) active =
     (let b = bids_of c index in
      if guy b \<noteq> zero_address then yank_loop c rest (active @ [b])
      else yank_loop c rest active)"

fun cage_active_auctions :: "parentObj \<Rightarrow> auction_bid list" where
  "cage_active_auctions (Clipper c) = active_auctions c"
| "cage_active_auctions (Flipper c) = flip_loop c [1 ..< kicks c + 1] []"
| "cage_active_auctions (Flapper c) = yank_loop c [1 ..< kicks c + 1] []"
| "cage_active_auctions (Flopper c) = yank_loop c [1 ..< kicks c + 1] []"

text \<open>
  A Python dict keeps its keys in insertion order, and an assignment to a key it already
  has replaces the value where the key stands.
\<close>

fun dict_set :: "'k \<Rightarrow> 'v \<Rightarrow> ('k \<times> 'v) list \<Rightarrow> ('k \<times> 'v) list" where
  "dict_set k v [] = [(k, v)]"
| "dict_set k v (p # ps) = (if fst p = k then (k, v) # ps else p # dict_set k v ps)"

record auctions =
  clips :: "(string \<times> auction_bid list) list"
  flips :: "(string \<times> auction_bid list) list"
  flaps :: "auction_bid list"
  flops :: "auction_bid list"

fun collect_auctions ::
  "collateral list \<Rightarrow> (string \<times> auction_bid list) list \<Rightarrow> (string \<times> auction_bid list) list
    \<Rightarrow> (string \<times> auction_bid list) list \<times> (string \<times> auction_bid list) list" where
  "collect_auctions [] cl fl = (cl, fl)"
| "collect_auctions (c # cs) cl fl =
     (case clipper c of
        Some k \<Rightarrow> collect_auctions cs (dict_set (ilk_name c) (cage_active_auctions (Clipper k)) cl) fl
      | None \<Rightarrow>
          (case flipper c of
             Some f \<Rightarrow> collect_auctions cs cl (dict_set (ilk_name c) (cage_active_auctions (Flipper f)) fl)
           | None \<Rightarrow> collect_auctions cs cl fl))"

definition all_active_auctions :: "chain \<Rightarrow> auctions" where
  "all_active_auctions b =
     (case collect_auctions (collaterals b) [] [] of
        (cl, fl) \<Rightarrow>
          \<lparr>clips = cl, flips = fl,
           flaps = cage_active_auctions (Flapper (flapper b)),
           flops = cage_active_auctions (Flopper (flopper b))\<rparr>)"

definition yank_auctions :: "auction_bid list \<Rightarrow> auction_bid list \<Rightarrow> call list" where
  "yank_auctions flapBids flopBids =
     map (\<lambda>b. FlapYank (bid_id b)) flapBids @ map (\<lambda>b. FlopYank (bid_id b)) flopBids"

subsection \<open>Collaterals and underwater urns\<close>

definition get_collaterals :: "chain \<Rightarrow> collateral list" where
  "get_collaterals b =
     filter (\<lambda>l. 0 < ilk_art (vat_ilk b (ilk_name l)))
       (filter (\<lambda>l. ilk_name l \<noteq> ''SAI'') (collaterals b))"

text \<open>The inner loop of \<^verbatim>\<open>get_underwater_urns\<close>, over the urns of one ilk.\<close>

fun scan_urns :: "chain \<Rightarrow> urn list \<Rightarrow> urn list \<Rightarrow> urn list" where
  "scan_urns b [] underwater_urns = underwater_urns"
| "scan_urns b (u # us) underwater_urns =
     (let u' = u\<lparr>urn_ilk := vat_ilk b (name (urn_ilk u))\<rparr>;
          mat = spotter_mat b (name (urn_ilk u'));
          usdDebt = ray_mul (Ray_of_Wad (art u')) (rate (urn_ilk u'));
          usdCollateral = ray_mul (ray_mul (Ray_of_Wad (ink u')) (spot (urn_ilk u'))) mat
      in if usdDebt > usdCollateral then scan_urns b us (underwater_urns @ [u'])
         else scan_urns b us underwater_urns)"

fun scan_ilks :: "chain \<Rightarrow> string list \<Rightarrow> urn list \<Rightarrow> urn list" where
  "scan_ilks b [] underwater_urns = underwater_urns"
| "scan_ilks b (i # ilks) underwater_urns = scan_ilks b ilks (scan_urns b (get_urns b i) underwater_urns)"

definition get_underwater_urns :: "chain \<Rightarrow> string list \<Rightarrow> urn list" where
  "get_underwater_urns b ilks = scan_ilks b ilks []"

subsection \<open>The two phases\<close>

definition settle_calls :: "chain \<Rightarrow> (string \<Rightarrow> nat \<Rightarrow> call) \<Rightarrow> (string \<times> auction_bid list) list \<Rightarrow> call list" where
  "settle_calls b f d =
     concat (map (\<lambda>(key, bs). map (\<lambda>x. f (name (vat_ilk b key)) (bid_id x)) bs) d)"

definition facilitate_processing_period :: "chain \<Rightarrow> call list" where
  "facilitate_processing_period b =
     (let ilks = map ilk_name (get_collaterals b);
          aucs = all_active_auctions b
      in yank_auctions (flaps aucs) (flops aucs)
         @ map EndCage ilks
         @ settle_calls b EndSnip (clips aucs)
         @ settle_calls b EndSkip (flips aucs)
         @ map (\<lambda>i. EndSkim (name (urn_ilk i)) (urn_address i)) (get_underwater_urns b ilks))"

definition flow_calls :: "collateral \<Rightarrow> call list" where
  "flow_calls c =
     [EndFlow (ilk_name c)]
     @ (case clipper c of Some k \<Rightarrow> [EsmDeny (contract_address k)] | None \<Rightarrow> [])
     @ (case flipper c of Some f \<Rightarrow> [EsmDeny (contract_address f)] | None \<Rightarrow> [])"

definition thaw_cage :: "chain \<Rightarrow> keeper \<Rightarrow> call list" where
  "thaw_cage b s =
     (let colls = get_collaterals b;
          dai = vat_dai_vow b
      in (if dai > 0 then [VowHeal dai] else [])
         @ [EndThaw]
         @ concat (map flow_calls colls)
         @ (if psm (arguments s) \<noteq> [] then [EndFlow ''PSM-USDC-A'', EsmDeny (psm (arguments s))] else []))"

subsection \<open>The block callback\<close>

text \<open>
  The calls of a phase that are submitted: all of them, or those before the exception.
\<close>

definition submitted :: "chain \<Rightarrow> call list \<Rightarrow> call list" where
  "submitted b cs = (case raises_after b of None \<Rightarrow> cs | Some k \<Rightarrow> take k cs)"

text \<open>
  The thaw time is computed in floating point: \<^verbatim>\<open>when.timestamp()\<close> is a Python float
  (an IEEE double), and adding the int \<^verbatim>\<open>wait\<close> to it converts \<^verbatim>\<open>wait\<close> to a float and
  rounds the sum to a float again. All values here are non-negative whole numbers, so a
  float is modelled by the natural number it stands for. \<open>to_float n\<close> is the double
  nearest to \<open>n\<close>, ties going to the even significand: numbers of at most 53 bits are
  kept, longer ones are rounded to their 53 leading bits. (No value here reaches the
  largest double: \<open>wait\<close> is below \<open>2 ^ 256\<close>.)
\<close>

fun bit_length :: "nat \<Rightarrow> nat" where
  "bit_length n = (if n = 0 then 0 else bit_length (n div 2) + 1)"

declare bit_length.simps [simp del]

definition to_float :: "nat \<Rightarrow> nat" where
  "to_float n =
     (if bit_length n \<le> 53 then n
      else
        (let e = bit_length n - 53;
             q = n div 2 ^ e;
             r = n mod 2 ^ e;
             half = 2 ^ (e - 1)
         in (if half < r \<or> (r = half \<and> odd q) then q + 1 else q) * 2 ^ e))"

text \<open>\<^verbatim>\<open>datetime.timestamp()\<close>, and the sum of a float and an int.\<close>

definition timestamp :: "datetime \<Rightarrow> nat" where
  "timestamp d = to_float (total_seconds d)"

definition float_add_int :: "nat \<Rightarrow> nat \<Rightarrow> nat" where
  "float_add_int x n = to_float (x + to_float n)"

text \<open>
  Lines 168 to 172 of \<^verbatim>\<open>check_cage\<close>: \<^verbatim>\<open>whenInUnix + wait\<close>. The comparison
  \<^verbatim>\<open>now >= thawedCage\<close> of an int with a float is exact in Python. In the last branch the
  source only logs the thaw time (or raises while formatting it): no call is submitted
  and the state is not changed.
\<close>

definition thawedCage :: "chain \<Rightarrow> nat" where
  "thawedCage b =
     (let whenInUnix = timestamp (end_when b); wait = unat (end_wait b)
      in float_add_int whenInUnix wait)"

definition check_cage :: "chain \<Rightarrow> keeper \<Rightarrow> keeper \<times> call list" where
  "check_cage b s =
     (if \<not> end_live b \<and> confirmations s = 12 then
        (if \<not> cageFacilitated s then
           (s\<lparr>cageFacilitated := True\<rparr>, submitted b (facilitate_processing_period b))
         else if block_timestamp b \<ge> int (thawedCage b) then
           (s, submitted b (thaw_cage b s @ [EsmBurn]))
         else (s, []))
      else if \<not> end_live b \<and> confirmations s < 13 then
        (s\<lparr>confirmations := confirmations s + 1\<rparr>, [])
      else (s, []))"

definition process_block :: "chain \<Rightarrow> keeper \<Rightarrow> keeper \<times> call list" where
  "process_block b s =
     (if errors s \<ge> max_errors s then (s\<lparr>terminated := True\<rparr>, [])
      else check_cage b s)"

text \<open>
  The lifecycle calls \<^verbatim>\<open>process_block\<close> once per block until the keeper has terminated;
  \<open>run\<close> returns the last state and the calls of each invocation.
\<close>

fun run :: "chain list \<Rightarrow> keeper \<Rightarrow> keeper \<times> call list list" where
  "run [] s = (s, [])"
| "run (b # bs) s =
     (if terminated s then (s, [])
      else (case process_block b s of
              (s', cs) \<Rightarrow> (case run bs s' of (s'', tr) \<Rightarrow> (s'', cs # tr))))"

subsection \<open>Which phase a call belongs to\<close>

text \<open>
  The calls \<^verbatim>\<open>facilitate_processing_period\<close> submits, and the calls \<^verbatim>\<open>thaw_cage\<close> and the
  burn after it submit.
\<close>

fun is_facilitation_call :: "call \<Rightarrow> bool" where
  "is_facilitation_call (FlapYank i) = True"
| "is_facilitation_call (FlopYank i) = True"
| "is_facilitation_call (EndCage n) = True"
| "is_facilitation_call (EndSnip n i) = True"
| "is_facilitation_call (EndSkip n i) = True"
| "is_facilitation_call (EndSkim n a) = True"
| "is_facilitation_call c = False"

fun is_thaw_call :: "call \<Rightarrow> bool" where
  "is_thaw_call (VowHeal d) = True"
| "is_thaw_call EndThaw = True"
| "is_thaw_call (EndFlow n) = True"
| "is_thaw_call (EsmDeny a) = True"
| "is_thaw_call EsmBurn = True"
| "is_thaw_call c = False"

fun is_yank :: "call \<Rightarrow> bool" where
  "is_yank (FlapYank i) = True"
| "is_yank (FlopYank i) = True"
| "is_yank c = False"

fun is_settle_or_skim :: "call \<Rightarrow> bool" where
  "is_settle_or_skim (EndSnip n i) = True"
| "is_settle_or_skim (EndSkip n i) = True"
| "is_settle_or_skim (EndSkim n a) = True"
| "is_settle_or_skim c = False"

fun is_flow_or_deny :: "call \<Rightarrow> bool" where
  "is_flow_or_deny (EndFlow n) = True"
| "is_flow_or_deny (EsmDeny a) = True"
| "is_flow_or_deny c = False"

subsection \<open>A deployment to evaluate the keeper on\<close>

text \<open>
  Four collateral types: ETH-A with a flipper (auction 1 bids 80 of a tab of 100, auction 2
  has reached its tab, auction 3 has no bidder), SAI, WBTC-A with a clipper, and USDC-A
  with a flipper and no debt. One urn of ETH-A is underwater, one is exactly at the limit.
\<close>

definition no_bids :: "nat \<Rightarrow> address \<times> nat \<times> nat" where
  "no_bids i = (zero_address, 0, 0)"

definition eth_flipper :: auction_contract where
  "eth_flipper =
     \<lparr>contract_address = ''0xF1'', kicks = 3,
      bids = (\<lambda>i. if i = 1 then (''0xA1'', 80, 100)
                 else if i = 2 then (''0xA2'', 100, 100) else (zero_address, 50, 100)),
      active_auctions = []\<rparr>"

definition usdc_flipper :: auction_contract where
  "usdc_flipper = \<lparr>contract_address = ''0xF2'', kicks = 0, bids = no_bids, active_auctions = []\<rparr>"

definition wbtc_clipper :: auction_contract where
  "wbtc_clipper =
     \<lparr>contract_address = ''0xC1'', kicks = 5, bids = no_bids,
      active_auctions = [\<lparr>bid_id = 4, guy = ''0xA3'', bid = 0, tab = 7\<rparr>]\<rparr>"

definition ex_flapper :: auction_contract where
  "ex_flapper =
     \<lparr>contract_address = ''0xF3'', kicks = 2,
      bids = (\<lambda>i. if i = 2 then (''0xB1'', 5, 0) else (zero_address, 0, 0)),
      active_auctions = []\<rparr>"

definition ex_flopper :: auction_contract where
  "ex_flopper =
     \<lparr>contract_address = ''0xF4'', kicks = 1,
      bids = (\<lambda>i. (''0xB2'', 9, 0)),
      active_auctions = []\<rparr>"

definition ex_collaterals :: "collateral list" where
  "ex_collaterals =
     [\<lparr>ilk_name = ''ETH-A'', clipper = None, flipper = Some eth_flipper\<rparr>,
      \<lparr>ilk_name = ''SAI'', clipper = None, flipper = None\<rparr>,
      \<lparr>ilk_name = ''WBTC-A'', clipper = Some wbtc_clipper, flipper = None\<rparr>,
      \<lparr>ilk_name = ''USDC-A'', clipper = None, flipper = Some usdc_flipper\<rparr>]"

definition stale_ilk :: "string \<Rightarrow> ilk" where
  "stale_ilk n = \<lparr>name = n, rate = 0, spot = 0, ilk_art = 0\<rparr>"

definition ex_urns :: "string \<Rightarrow> urn list" where
  "ex_urns n =
     (if n = ''ETH-A'' then
        [\<lparr>urn_address = ''0xU1'', urn_ilk = stale_ilk ''ETH-A'', ink = 10, art = 5\<rparr>,
         \<lparr>urn_address = ''0xU2'', urn_ilk = stale_ilk ''ETH-A'', ink = 2, art = 7\<rparr>,
         \<lparr>urn_address = ''0xU3'', urn_ilk = stale_ilk ''ETH-A'', ink = 2, art = 6\<rparr>]
      else [])"

definition ex_chain :: chain where
  "ex_chain =
     \<lparr>end_live = False, end_when = datetime_of_seconds 1000, end_wait = 100,
      block_timestamp = 1050,
      collaterals = ex_collaterals, flapper = ex_flapper, flopper = ex_flopper,
      vat_rate = (\<lambda>n. 10 ^ 27),
      vat_spot = (\<lambda>n. 3 * 10 ^ 27),
      vat_Art = (\<lambda>n. if n = ''ETH-A'' then 5 else if n = ''SAI'' then 1
                      else if n = ''WBTC-A'' then 3 else 0),
      spotter_mat = (\<lambda>n. 10 ^ 27),
      vat_dai_vow = 4,
      get_urns = ex_urns,
      raises_after = None,
      tx_fails = (\<lambda>c. False)\<rparr>"

definition ex_arguments :: arguments where
  "ex_arguments = \<lparr>previous_cage = False, psm = ''0xP1'', max_errors_arg = 1\<rparr>"

text \<open>The keeper once twelve blocks have read \<open>live\<close> false, before and after facilitation.\<close>

definition final_keeper :: keeper where
  "final_keeper = (init ex_arguments)\<lparr>confirmations := 12\<rparr>"

definition facilitated_keeper :: keeper where
  "facilitated_keeper = final_keeper\<lparr>cageFacilitated := True\<rparr>"

text \<open>
  The same chain once the processing period is over, with every transaction failing, with
  an exception after the third transaction; and a keeper started with \<^verbatim>\<open>--previous-cage\<close>.
\<close>

definition thaw_chain :: chain where
  "thaw_chain = ex_chain\<lparr>block_timestamp := 1100\<rparr>"

definition failing_chain :: chain where
  "failing_chain = ex_chain\<lparr>tx_fails := (\<lambda>c. True)\<rparr>"

definition aborted_chain :: chain where
  "aborted_chain = ex_chain\<lparr>raises_after := Some 3\<rparr>"


definition late_chain :: chain where
  "late_chain = ex_chain\<lparr>end_wait := 2 ^ 53 + 3, block_timestamp := 2 ^ 53 + 1003\<rparr>"

definition restart_arguments :: arguments where
  "restart_arguments = ex_arguments\<lparr>previous_cage := True\<rparr>"

section \<open>The confirmation counter\<close>

lemma check_cage_confirmations:
  "confirmations (fst (check_cage b s)) =
     (if \<not> end_live b \<and> confirmations s < 12 then confirmations s + 1 else confirmations s)"
  by (simp add: check_cage_def Let_def)

lemma run_confirmations:
  "0 \<le> confirmations s \<and> confirmations s \<le> 12 \<Longrightarrow>
   0 \<le> confirmations (fst (run bs s)) \<and> confirmations (fst (run bs s)) \<le> 12"
proof (induction bs arbitrary: s)
  case Nil
  then show ?case by simp
next
  case (Cons b bs)
  show ?case
  proof (cases "terminated s")
    case True
    with Cons.prems show ?thesis by simp
  next
    case False
    obtain s' cs where pb: "process_block b s = (s', cs)" by (cases "process_block b s")
    have "confirmations s' = confirmations (fst (process_block b s))" using pb by simp
    also have "\<dots> = (if errors s \<ge> max_errors s then confirmations s
                  else confirmations (fst (check_cage b s)))"
      by (simp add: process_block_def)
    finally have "0 \<le> confirmations s' \<and> confirmations s' \<le> 12"
      using Cons.prems by (simp add: check_cage_confirmations split: if_splits)
    from Cons.IH[OF this] show ?thesis using False pb
      by (cases "run bs s'") simp
  qed
qed

text \<open>
  Claim C2. The counter starts at 0; an invocation of \<^verbatim>\<open>check_cage\<close> adds exactly 1 to it
  when \<open>live\<close> reads false and the counter is below 12, and leaves it as it is otherwise
  (so it is never incremented once it equals 12, and never while \<open>live\<close> reads true); in
  every state a run reaches from \<^verbatim>\<open>__init__\<close> the counter lies between 0 and 12.
\<close>

theorem confirmation_counter:
  "confirmations (init args) = 0
   \<and> confirmations (fst (check_cage b s)) =
       (if \<not> end_live b \<and> confirmations s < 12 then confirmations s + 1 else confirmations s)
   \<and> 0 \<le> confirmations (fst (run bs (init args)))
   \<and> confirmations (fst (run bs (init args))) \<le> 12"
proof -
  have "0 \<le> confirmations (init args) \<and> confirmations (init args) \<le> 12"
    by (simp add: init_def)
  from run_confirmations[OF this] show ?thesis
    by (simp add: check_cage_confirmations) (simp add: init_def)
qed

section \<open>Auction classification\<close>

lemma flip_loop_filter:
  "flip_loop c is acc = acc @ filter (\<lambda>b. guy b \<noteq> zero_address \<and> bid b < tab b) (map (bids_of c) is)"
  by (induction "is" arbitrary: acc) (simp_all add: Let_def)

lemma yank_loop_filter:
  "yank_loop c is acc = acc @ filter (\<lambda>b. guy b \<noteq> zero_address) (map (bids_of c) is)"
  by (induction "is" arbitrary: acc) (simp_all add: Let_def)

lemma bid_id_bids_of: "bid_id (bids_of c i) = i"
  by (simp add: bids_of_def split: prod.splits)

text \<open>
  Claim C6. For a Flipper the list returned holds exactly the bids read at the ids 1 to
  \<open>kicks\<close> (both included, in this order) whose \<open>guy\<close> is not the zero address and whose
  \<open>bid\<close> is strictly below \<open>tab\<close>; for the Flapper and the Flopper, whose lists are the
  yank lists, exactly the bids at these ids whose \<open>guy\<close> is not the zero address; for a
  Clipper the result of its own \<^verbatim>\<open>active_auctions()\<close>, unchanged.
\<close>

theorem auction_classification:
  "cage_active_auctions (Flipper c) =
     filter (\<lambda>b. guy b \<noteq> zero_address \<and> bid b < tab b) (map (bids_of c) [1 ..< Suc (kicks c)])
   \<and> cage_active_auctions (Flapper c) =
     filter (\<lambda>b. guy b \<noteq> zero_address) (map (bids_of c) [1 ..< Suc (kicks c)])
   \<and> cage_active_auctions (Flopper c) =
     filter (\<lambda>b. guy b \<noteq> zero_address) (map (bids_of c) [1 ..< Suc (kicks c)])
   \<and> cage_active_auctions (Clipper c) = active_auctions c
   \<and> set [1 ..< Suc (kicks c)] = {i. 1 \<le> i \<and> i \<le> kicks c}
   \<and> bid_id (bids_of c i) = i
   \<and> flaps (all_active_auctions b) = cage_active_auctions (Flapper (flapper b))
   \<and> flops (all_active_auctions b) = cage_active_auctions (Flopper (flopper b))"
  by (auto simp: flip_loop_filter yank_loop_filter bid_id_bids_of all_active_auctions_def
      split: prod.splits)

section \<open>Underwater urns\<close>

lemma scan_urns_filter:
  "scan_urns b us acc = acc @
     filter (\<lambda>u. ray_mul (ray_mul (Ray_of_Wad (ink u)) (spot (urn_ilk u))) (spotter_mat b (name (urn_ilk u)))
                 < ray_mul (Ray_of_Wad (art u)) (rate (urn_ilk u)))
       (map (\<lambda>u. u\<lparr>urn_ilk := vat_ilk b (name (urn_ilk u))\<rparr>) us)"
  by (induction us arbitrary: acc) (simp_all add: Let_def)

lemma scan_ilks_concat:
  "scan_ilks b ilks acc = acc @ concat (map (\<lambda>i. scan_urns b (get_urns b i) []) ilks)"
proof (induction ilks arbitrary: acc)
  case Nil
  then show ?case by simp
next
  case (Cons i ilks)
  have "scan_urns b (get_urns b i) acc = acc @ scan_urns b (get_urns b i) []"
    by (simp add: scan_urns_filter)
  then show ?case by (simp add: Cons.IH)
qed

text \<open>
  Claim C5. The scanner returns, for the ilks it is given and in their order, exactly the
  urns of the history provider (with their ilk read again from the Vat) for which
  \<open>art \<times> rate > ink \<times> spot \<times> mat\<close> holds strictly, the comparison being made on Rays:
  \<open>art\<close> and \<open>ink\<close> are converted from Wad to Ray, and the products are products of Rays.
  The comparison is strict, so an urn whose two values are equal is not returned.
\<close>

theorem underwater_classification:
  "get_underwater_urns b ilks =
     concat (map (\<lambda>i.
       filter (\<lambda>u. ray_mul (Ray_of_Wad (art u)) (rate (urn_ilk u))
                    > ray_mul (ray_mul (Ray_of_Wad (ink u)) (spot (urn_ilk u)))
                        (spotter_mat b (name (urn_ilk u))))
         (map (\<lambda>u. u\<lparr>urn_ilk := vat_ilk b (name (urn_ilk u))\<rparr>) (get_urns b i))) ilks)"
  by (simp add: get_underwater_urns_def scan_ilks_concat scan_urns_filter)

text \<open>
  On the example: the urn with debt 7 against collateral worth 6 is returned, the urn with
  debt 6 against collateral worth 6 is not.
\<close>

lemma underwater_example:
  "get_underwater_urns ex_chain [''ETH-A'', ''WBTC-A''] =
     [\<lparr>urn_address = ''0xU2'', urn_ilk = vat_ilk ex_chain ''ETH-A'', ink = 2, art = 7\<rparr>]"
  by (simp add: get_underwater_urns_def ex_chain_def ex_urns_def stale_ilk_def vat_ilk_def Let_def
      ray_mul_def Ray_of_Wad_def)

section \<open>The phases over a run\<close>

lemma facilitation_calls:
  "c \<in> set (facilitate_processing_period b) \<Longrightarrow> is_facilitation_call c \<and> \<not> is_thaw_call c"
  by (auto simp: facilitate_processing_period_def Let_def yank_auctions_def settle_calls_def)

lemma thaw_calls:
  "c \<in> set (thaw_cage b s @ [EsmBurn]) \<Longrightarrow> is_thaw_call c \<and> \<not> is_facilitation_call c"
  by (auto simp: thaw_cage_def Let_def flow_calls_def split: if_splits option.splits)

lemma set_submitted: "set (submitted b cs) \<subseteq> set cs"
  by (auto simp: submitted_def split: option.splits dest: in_set_takeD)

lemma bit_length_le: "n < 2 ^ k \<Longrightarrow> bit_length n \<le> k"
proof (induction k arbitrary: n)
  case 0
  then show ?case by (simp add: bit_length.simps)
next
  case (Suc k)
  show ?case
  proof (cases "n = 0")
    case True
    then show ?thesis by (simp add: bit_length.simps)
  next
    case False
    from Suc.prems have "n div 2 < 2 ^ k" by auto
    from Suc.IH[OF this] False show ?thesis
      by (subst bit_length.simps) simp
  qed
qed

lemma bit_length_eq: "2 ^ k \<le> n \<and> n < 2 ^ Suc k \<Longrightarrow> bit_length n = Suc k"
proof (induction k arbitrary: n)
  case 0
  then have "n = 1" by simp
  then show ?case by (simp add: bit_length.simps)
next
  case (Suc k)
  then have "2 ^ k \<le> n div 2 \<and> n div 2 < 2 ^ Suc k" by auto
  from Suc.IH[OF this] Suc.prems show ?case
    by (subst bit_length.simps) auto
qed

text \<open>Below \<open>2 ^ 53 = 9007199254740992\<close> every whole number is a float.\<close>

lemma to_float_exact: "n < 9007199254740992 \<Longrightarrow> to_float n = n"
  using bit_length_le[of n 53] by (simp add: to_float_def)

lemma total_seconds_small: "total_seconds d < 9007199254740992"
proof -
  have "total_seconds d \<le> 253402300799" using total_seconds[of d] by simp
  then show ?thesis by simp
qed

lemma timestamp_exact: "timestamp d = total_seconds d"
  by (simp add: timestamp_def to_float_exact total_seconds_small)

lemma thawedCage_exact:
  "total_seconds (end_when b) + unat (end_wait b) < 2 ^ 53 \<Longrightarrow>
     thawedCage b = total_seconds (end_when b) + unat (end_wait b)"
  by (simp add: thawedCage_def Let_def float_add_int_def timestamp_exact to_float_exact)


lemma to_float_rounds_up: "to_float 9007199254740995 = 9007199254740996"
proof -
  have "bit_length 9007199254740995 = Suc 53" by (rule bit_length_eq) simp
  then show ?thesis by (simp add: to_float_def)
qed


lemma to_float_even': "to_float 9007199254741996 = 9007199254741996"
proof -
  have "bit_length 9007199254741996 = Suc 53" by (rule bit_length_eq) simp
  then show ?thesis by (simp add: to_float_def)
qed

lemma check_cage_step:
  "check_cage b s =
     (if \<not> end_live b \<and> confirmations s = 12 \<and> \<not> cageFacilitated s
        then (s\<lparr>cageFacilitated := True\<rparr>, submitted b (facilitate_processing_period b))
      else if \<not> end_live b \<and> confirmations s = 12 \<and> int (thawedCage b) \<le> block_timestamp b
        then (s, submitted b (thaw_cage b s @ [EsmBurn]))
      else if \<not> end_live b \<and> confirmations s < 12
        then (s\<lparr>confirmations := confirmations s + 1\<rparr>, [])
      else (s, []))"
  by (simp add: check_cage_def Let_def)

lemma check_cage_facilitated:
  "cageFacilitated s \<Longrightarrow>
     cageFacilitated (fst (check_cage b s))
     \<and> (\<forall>c\<in>set (snd (check_cage b s)). \<not> is_facilitation_call c)"
  using set_submitted[of b "thaw_cage b s @ [EsmBurn]"] thaw_calls[of _ b s]
  by (auto simp: check_cage_step)

lemma process_block_facilitated:
  "cageFacilitated s \<Longrightarrow>
     cageFacilitated (fst (process_block b s))
     \<and> (\<forall>c\<in>set (snd (process_block b s)). \<not> is_facilitation_call c)"
  using check_cage_facilitated[of s b]
  by (simp add: process_block_def)

lemma run_facilitated:
  "cageFacilitated s \<Longrightarrow>
     cageFacilitated (fst (run bs s))
     \<and> (\<forall>cs\<in>set (snd (run bs s)). \<forall>c\<in>set cs. \<not> is_facilitation_call c)"
proof (induction bs arbitrary: s)
  case Nil
  then show ?case by simp
next
  case (Cons b bs)
  show ?case
  proof (cases "terminated s")
    case True
    with Cons.prems show ?thesis by simp
  next
    case False
    obtain s' cs where pb: "process_block b s = (s', cs)" by (cases "process_block b s")
    have s': "cageFacilitated s'" and cs: "\<forall>c\<in>set cs. \<not> is_facilitation_call c"
      using process_block_facilitated[OF Cons.prems, of b] pb by simp_all
    from Cons.IH[OF s'] cs show ?thesis using False pb
      by (cases "run bs s'") simp
  qed
qed

lemma process_block_working:
  "errors s < max_errors s \<Longrightarrow> process_block b s = check_cage b s"
  by (simp add: process_block_def)

lemma check_cage_fields:
  "errors (fst (check_cage b s)) = errors s"
  "max_errors (fst (check_cage b s)) = max_errors s"
  "terminated (fst (check_cage b s)) = terminated s"
  "arguments (fst (check_cage b s)) = arguments s"
  by (simp_all add: check_cage_step)

lemma process_block_errors:
  "errors (fst (process_block b s)) = errors s \<and> max_errors (fst (process_block b s)) = max_errors s"
  by (simp add: process_block_def check_cage_fields)

subsection \<open>The example deployment, evaluated\<close>

lemmas ex_defs = ex_chain_def ex_collaterals_def ex_urns_def stale_ilk_def eth_flipper_def wbtc_clipper_def
  usdc_flipper_def ex_flapper_def ex_flopper_def no_bids_def zero_address_def

lemma ex_facilitation:
  "facilitate_processing_period ex_chain =
     [FlapYank 2, FlopYank 1, EndCage ''ETH-A'', EndCage ''WBTC-A'', EndSnip ''WBTC-A'' 4,
      EndSkip ''ETH-A'' 1, EndSkim ''ETH-A'' ''0xU2'']"
  by (simp add: facilitate_processing_period_def get_collaterals_def vat_ilk_def
      all_active_auctions_def yank_auctions_def settle_calls_def get_underwater_urns_def
      ray_mul_def Ray_of_Wad_def bids_of_def ex_defs Let_def upt_conv_Cons)

lemma aborted_facilitation:
  "facilitate_processing_period aborted_chain = facilitate_processing_period ex_chain"
  by (simp add: facilitate_processing_period_def get_collaterals_def vat_ilk_def
      all_active_auctions_def yank_auctions_def settle_calls_def get_underwater_urns_def
      ray_mul_def Ray_of_Wad_def bids_of_def aborted_chain_def ex_defs Let_def upt_conv_Cons)

lemma failing_facilitation:
  "facilitate_processing_period failing_chain = facilitate_processing_period ex_chain"
  by (simp add: facilitate_processing_period_def get_collaterals_def vat_ilk_def
      all_active_auctions_def yank_auctions_def settle_calls_def get_underwater_urns_def
      ray_mul_def Ray_of_Wad_def bids_of_def failing_chain_def ex_defs Let_def upt_conv_Cons)

lemma ex_thaw:
  "thaw_cage thaw_chain facilitated_keeper =
     [VowHeal 4, EndThaw, EndFlow ''ETH-A'', EsmDeny ''0xF1'', EndFlow ''WBTC-A'', EsmDeny ''0xC1'',
      EndFlow ''PSM-USDC-A'', EsmDeny ''0xP1'']"
  by (simp add: thaw_cage_def get_collaterals_def vat_ilk_def flow_calls_def thaw_chain_def ex_defs
      facilitated_keeper_def final_keeper_def init_def ex_arguments_def)

lemma ex_chain_sum:
  "total_seconds (end_when ex_chain) + unat (end_wait ex_chain) = 1100"
  by (simp add: ex_chain_def datetime_of_seconds_inverse)

lemma ex_chain_reads:
  "end_live ex_chain = False" "thawedCage ex_chain = 1100"
  "block_timestamp ex_chain = 1050" "raises_after ex_chain = None"
  using thawedCage_exact[of ex_chain] by (simp_all add: ex_chain_sum) (simp_all add: ex_chain_def)

lemma thaw_chain_sum:
  "total_seconds (end_when thaw_chain) + unat (end_wait thaw_chain) = 1100"
  by (simp add: thaw_chain_def ex_chain_def datetime_of_seconds_inverse)

lemma thaw_chain_reads:
  "end_live thaw_chain = False" "thawedCage thaw_chain = 1100"
  "block_timestamp thaw_chain = 1100" "raises_after thaw_chain = None"
  using thawedCage_exact[of thaw_chain] by (simp_all add: thaw_chain_sum)
    (simp_all add: thaw_chain_def ex_chain_def)

lemma aborted_chain_reads:
  "end_live aborted_chain = False" "raises_after aborted_chain = Some 3"
  by (simp_all add: aborted_chain_def ex_chain_def)

lemma failing_chain_reads:
  "end_live failing_chain = False" "raises_after failing_chain = None" "tx_fails failing_chain c"
  "block_timestamp failing_chain = 1050"
  by (simp_all add: failing_chain_def ex_chain_def)

lemma final_keeper_fields:
  "confirmations final_keeper = 12" "cageFacilitated final_keeper = False"
  "errors final_keeper = 0" "max_errors final_keeper = 1" "terminated final_keeper = False"
  by (simp_all add: final_keeper_def init_def ex_arguments_def)

lemma facilitated_keeper_fields:
  "confirmations facilitated_keeper = 12" "cageFacilitated facilitated_keeper = True"
  "errors facilitated_keeper = 0" "max_errors facilitated_keeper = 1"
  "terminated facilitated_keeper = False"
  by (simp_all add: facilitated_keeper_def final_keeper_def init_def ex_arguments_def)

subsection \<open>Runs that only count, and runs that only thaw\<close>

lemma run_counting:
  "errors s < max_errors s \<and> \<not> terminated s \<and> \<not> end_live b \<and> confirmations s + int n \<le> 12 \<Longrightarrow>
     run (replicate n b) s = (s\<lparr>confirmations := confirmations s + int n\<rparr>, replicate n [])"
proof (induction n arbitrary: s)
  case 0
  then show ?case by simp
next
  case (Suc n)
  then have pb: "process_block b s = (s\<lparr>confirmations := confirmations s + 1\<rparr>, [])"
    by (simp add: process_block_working check_cage_step)
  have "run (replicate n b) (s\<lparr>confirmations := confirmations s + 1\<rparr>) =
          (s\<lparr>confirmations := confirmations s + 1 + int n\<rparr>, replicate n [])"
    using Suc.prems Suc.IH[of "s\<lparr>confirmations := confirmations s + 1\<rparr>"] by simp
  with Suc.prems pb show ?case by (simp add: add.assoc add.commute)
qed

lemma run_thawing:
  "errors s < max_errors s \<and> \<not> terminated s \<and> confirmations s = 12 \<and> cageFacilitated s
   \<and> (\<forall>b\<in>set bs. \<not> end_live b \<and> int (thawedCage b) \<le> block_timestamp b) \<Longrightarrow>
   run bs s = (s, map (\<lambda>b. submitted b (thaw_cage b s @ [EsmBurn])) bs)"
proof (induction bs)
  case Nil
  then show ?case by simp
next
  case (Cons b bs)
  then have "process_block b s = (s, submitted b (thaw_cage b s @ [EsmBurn]))"
    by (simp add: process_block_working check_cage_step)
  with Cons show ?case by simp
qed

section \<open>Facilitation\<close>

text \<open>
  Claim C1, amended. An invocation of \<^verbatim>\<open>check_cage\<close> computes and submits the facilitation
  work list exactly when \<open>live\<close> reads false, the counter equals 12 and the facilitated flag
  is false; it then sets the flag. In every other case it leaves the flag as it is and
  submits no facilitation call. So in a run where the flag is false when the counter has
  reached 12 (a run started without \<^verbatim>\<open>--previous-cage\<close>), the work list is submitted on
  the first invocation where \<open>live\<close> reads false and the counter equals 12, and on no later
  one; in a run where the flag is true (a run started with \<^verbatim>\<open>--previous-cage\<close>) it is
  never submitted. The flag never returns to false.
\<close>

theorem facilitation_once:
  "(if \<not> end_live b \<and> confirmations s = 12 \<and> \<not> cageFacilitated s
      then check_cage b s = (s\<lparr>cageFacilitated := True\<rparr>, submitted b (facilitate_processing_period b))
      else cageFacilitated (fst (check_cage b s)) = cageFacilitated s
           \<and> (\<forall>c\<in>set (snd (check_cage b s)). \<not> is_facilitation_call c))
   \<and> (\<not> end_live b \<and> confirmations s = 12 \<and> \<not> cageFacilitated s
        \<and> errors s < max_errors s \<and> \<not> terminated s \<longrightarrow>
      snd (run (b # bs) s) =
        submitted b (facilitate_processing_period b) # snd (run bs (s\<lparr>cageFacilitated := True\<rparr>))
      \<and> (\<forall>cs\<in>set (snd (run bs (s\<lparr>cageFacilitated := True\<rparr>))). \<forall>c\<in>set cs. \<not> is_facilitation_call c))
   \<and> (cageFacilitated s \<longrightarrow>
        cageFacilitated (fst (run bs s))
        \<and> (\<forall>cs\<in>set (snd (run bs s)). \<forall>c\<in>set cs. \<not> is_facilitation_call c))"
proof (intro conjI impI)
  show "if \<not> end_live b \<and> confirmations s = 12 \<and> \<not> cageFacilitated s
      then check_cage b s = (s\<lparr>cageFacilitated := True\<rparr>, submitted b (facilitate_processing_period b))
      else cageFacilitated (fst (check_cage b s)) = cageFacilitated s
           \<and> (\<forall>c\<in>set (snd (check_cage b s)). \<not> is_facilitation_call c)"
    using set_submitted[of b "thaw_cage b s @ [EsmBurn]"] thaw_calls[of _ b s]
    by (auto simp: check_cage_step)
next
  assume a: "\<not> end_live b \<and> confirmations s = 12 \<and> \<not> cageFacilitated s
        \<and> errors s < max_errors s \<and> \<not> terminated s"
  then have "process_block b s = (s\<lparr>cageFacilitated := True\<rparr>, submitted b (facilitate_processing_period b))"
    by (simp add: process_block_working check_cage_step)
  with a show "snd (run (b # bs) s) =
        submitted b (facilitate_processing_period b) # snd (run bs (s\<lparr>cageFacilitated := True\<rparr>))"
    by (cases "run bs (s\<lparr>cageFacilitated := True\<rparr>)") simp
  show "\<forall>cs\<in>set (snd (run bs (s\<lparr>cageFacilitated := True\<rparr>))). \<forall>c\<in>set cs. \<not> is_facilitation_call c"
    using run_facilitated[of "s\<lparr>cageFacilitated := True\<rparr>" bs] by simp
next
  assume "cageFacilitated s"
  then show "cageFacilitated (fst (run bs s))"
    and "\<forall>cs\<in>set (snd (run bs s)). \<forall>c\<in>set cs. \<not> is_facilitation_call c"
    using run_facilitated[of s bs] by simp_all
qed

theorem facilitation_once_witness:
  "(\<not> end_live ex_chain \<and> confirmations final_keeper = 12 \<and> \<not> cageFacilitated final_keeper
      \<and> errors final_keeper < max_errors final_keeper \<and> \<not> terminated final_keeper)
   \<and> check_cage ex_chain final_keeper = (facilitated_keeper, facilitate_processing_period ex_chain)
   \<and> snd (run [ex_chain, thaw_chain] final_keeper) =
       [facilitate_processing_period ex_chain, thaw_cage thaw_chain facilitated_keeper @ [EsmBurn]]
   \<and> cageFacilitated facilitated_keeper
   \<and> cageFacilitated (fst (run [thaw_chain] facilitated_keeper))"
proof -
  have r: "run [thaw_chain] facilitated_keeper =
             (facilitated_keeper, [thaw_cage thaw_chain facilitated_keeper @ [EsmBurn]])"
    using run_thawing[of facilitated_keeper "[thaw_chain]"]
    by (simp add: facilitated_keeper_fields thaw_chain_reads submitted_def)
  show ?thesis
    using facilitation_once[of ex_chain final_keeper "[thaw_chain]"]
      facilitation_once[of thaw_chain facilitated_keeper "[thaw_chain]"] r
    by (simp add: final_keeper_fields ex_chain_reads submitted_def facilitated_keeper_fields)
      (simp add: facilitated_keeper_def)
qed

text \<open>
  The claim as stated fails for a keeper started with \<^verbatim>\<open>--previous-cage\<close>: after twelve
  blocks that read \<open>live\<close> false the counter equals 12, and the next invocation, the first
  with \<open>live\<close> false and the counter at 12, submits nothing although the work list is not
  empty.
\<close>

theorem facilitation_once_counterexample:
  "run (replicate 12 ex_chain) (init restart_arguments) =
     ((init restart_arguments)\<lparr>confirmations := 12\<rparr>, replicate 12 [])
   \<and> \<not> end_live ex_chain
   \<and> confirmations ((init restart_arguments)\<lparr>confirmations := 12\<rparr>) = 12
   \<and> facilitate_processing_period ex_chain \<noteq> []
   \<and> snd (check_cage ex_chain ((init restart_arguments)\<lparr>confirmations := 12\<rparr>)) = []"
proof -
  have "run (replicate 12 ex_chain) (init restart_arguments) =
     ((init restart_arguments)\<lparr>confirmations := confirmations (init restart_arguments) + int 12\<rparr>,
      replicate 12 [])"
    by (rule run_counting) (simp add: init_def restart_arguments_def ex_arguments_def ex_chain_reads)
  then show ?thesis
    by (simp add: ex_facilitation ex_chain_reads check_cage_step)
      (simp add: init_def restart_arguments_def ex_arguments_def)
qed

section \<open>Thawing\<close>

text \<open>
  Claim C3, amended. The keeper keeps no record of having thawed: an invocation where
  \<open>live\<close> reads false, the counter equals 12, the flag is true and the block's timestamp
  has reached \<open>when + wait\<close> (a sum below \<open>2 ^ 53\<close> seconds, where the keeper's
  floating-point thaw time is exact) submits the thaw sequence and the burn and leaves
  the state as it was, so every later invocation that reads the same submits them again.
\<close>

theorem thaw_repeats:
  "errors s < max_errors s \<and> \<not> terminated s \<and> confirmations s = 12 \<and> cageFacilitated s
   \<and> (\<forall>b\<in>set bs. \<not> end_live b
          \<and> total_seconds (end_when b) + unat (end_wait b) < 2 ^ 53
          \<and> int (total_seconds (end_when b) + unat (end_wait b)) \<le> block_timestamp b) \<Longrightarrow>
   run bs s = (s, map (\<lambda>b. submitted b (thaw_cage b s @ [EsmBurn])) bs)"
proof -
  assume a: "errors s < max_errors s \<and> \<not> terminated s \<and> confirmations s = 12 \<and> cageFacilitated s
   \<and> (\<forall>b\<in>set bs. \<not> end_live b
          \<and> total_seconds (end_when b) + unat (end_wait b) < 2 ^ 53
          \<and> int (total_seconds (end_when b) + unat (end_wait b)) \<le> block_timestamp b)"
  have "\<forall>b\<in>set bs. \<not> end_live b \<and> int (thawedCage b) \<le> block_timestamp b"
  proof
    fix b
    assume "b \<in> set bs"
    with a have b: "\<not> end_live b"
        "total_seconds (end_when b) + unat (end_wait b) < 2 ^ 53"
        "int (total_seconds (end_when b) + unat (end_wait b)) \<le> block_timestamp b"
      by blast+
    from thawedCage_exact[OF b(2)] b(1) b(3)
    show "\<not> end_live b \<and> int (thawedCage b) \<le> block_timestamp b" by simp
  qed
  with a show ?thesis by (intro run_thawing) blast
qed

theorem thaw_repeats_witness:
  "(errors facilitated_keeper < max_errors facilitated_keeper \<and> \<not> terminated facilitated_keeper
      \<and> confirmations facilitated_keeper = 12 \<and> cageFacilitated facilitated_keeper)
   \<and> \<not> end_live thaw_chain
   \<and> total_seconds (end_when thaw_chain) + unat (end_wait thaw_chain) < 2 ^ 53
   \<and> int (total_seconds (end_when thaw_chain) + unat (end_wait thaw_chain))
        \<le> block_timestamp thaw_chain
   \<and> run [thaw_chain, thaw_chain] facilitated_keeper =
       (facilitated_keeper,
        [thaw_cage thaw_chain facilitated_keeper @ [EsmBurn],
         thaw_cage thaw_chain facilitated_keeper @ [EsmBurn]])"
  using thaw_repeats[of facilitated_keeper "[thaw_chain, thaw_chain]"]
  by (simp add: facilitated_keeper_fields thaw_chain_reads thaw_chain_sum submitted_def)

text \<open>
  The claim as stated fails: two invocations in a row submit the global thaw and the burn.
\<close>

theorem thaw_repeats_counterexample:
  "snd (run [thaw_chain, thaw_chain] facilitated_keeper) =
     [[VowHeal 4, EndThaw, EndFlow ''ETH-A'', EsmDeny ''0xF1'', EndFlow ''WBTC-A'', EsmDeny ''0xC1'',
       EndFlow ''PSM-USDC-A'', EsmDeny ''0xP1'', EsmBurn],
      [VowHeal 4, EndThaw, EndFlow ''ETH-A'', EsmDeny ''0xF1'', EndFlow ''WBTC-A'', EsmDeny ''0xC1'',
       EndFlow ''PSM-USDC-A'', EsmDeny ''0xP1'', EsmBurn]]"
  using run_thawing[of facilitated_keeper "[thaw_chain, thaw_chain]"]
  by (simp add: facilitated_keeper_fields thaw_chain_reads submitted_def ex_thaw)

section \<open>The facilitated latch\<close>

text \<open>
  Claim C10. On the invocation that facilitates, the flag is true afterwards however
  early an exception leaves the phase (also when no transaction at all was submitted),
  what was submitted is the part of the work list before the exception, and no later
  invocation of the run submits a facilitation call: the rest of the work list is never
  retried.
\<close>

theorem facilitated_latch:
  "\<not> end_live b \<and> confirmations s = 12 \<and> \<not> cageFacilitated s \<Longrightarrow>
     cageFacilitated (fst (check_cage b s))
     \<and> snd (check_cage b s) =
         (case raises_after b of None \<Rightarrow> facilitate_processing_period b
          | Some k \<Rightarrow> take k (facilitate_processing_period b))
     \<and> (\<forall>cs\<in>set (snd (run bs (fst (check_cage b s)))). \<forall>c\<in>set cs. \<not> is_facilitation_call c)"
  using run_facilitated[of "s\<lparr>cageFacilitated := True\<rparr>" bs]
  by (simp add: check_cage_step submitted_def)

theorem facilitated_latch_witness:
  "(\<not> end_live aborted_chain \<and> confirmations final_keeper = 12 \<and> \<not> cageFacilitated final_keeper)
   \<and> raises_after aborted_chain = Some 3
   \<and> cageFacilitated (fst (check_cage aborted_chain final_keeper))
   \<and> snd (check_cage aborted_chain final_keeper) = [FlapYank 2, FlopYank 1, EndCage ''ETH-A'']
   \<and> fst (check_cage aborted_chain final_keeper) = facilitated_keeper
   \<and> snd (run [thaw_chain] facilitated_keeper) =
       [[VowHeal 4, EndThaw, EndFlow ''ETH-A'', EsmDeny ''0xF1'', EndFlow ''WBTC-A'', EsmDeny ''0xC1'',
         EndFlow ''PSM-USDC-A'', EsmDeny ''0xP1'', EsmBurn]]"
proof -
  note f = aborted_facilitation
  have s: "fst (check_cage aborted_chain final_keeper) = facilitated_keeper"
    by (simp add: check_cage_step aborted_chain_reads final_keeper_fields facilitated_keeper_def)
  have r: "run [thaw_chain] facilitated_keeper =
             (facilitated_keeper, [thaw_cage thaw_chain facilitated_keeper @ [EsmBurn]])"
    using run_thawing[of facilitated_keeper "[thaw_chain]"]
    by (simp add: facilitated_keeper_fields thaw_chain_reads submitted_def)
  show ?thesis
    using facilitated_latch[of aborted_chain final_keeper "[thaw_chain]"]
    by (simp add: aborted_chain_reads final_keeper_fields f s r ex_facilitation ex_thaw
        del: run.simps)
qed

section \<open>Thaw gating and the order of the thaw phase\<close>

lemma flow_calls_kind: "list_all is_flow_or_deny (flow_calls c)"
  by (simp add: flow_calls_def split: option.splits)

lemma concat_flow_calls_kind: "list_all is_flow_or_deny (concat (map flow_calls cs))"
  by (induction cs) (simp_all add: flow_calls_kind)

lemma thaw_cage_order:
  "thaw_cage b s @ [EsmBurn] =
     (if 0 < vat_dai_vow b then [VowHeal (vat_dai_vow b)] else [])
     @ [EndThaw]
     @ concat (map flow_calls (get_collaterals b))
     @ (if psm (arguments s) \<noteq> [] then [EndFlow ''PSM-USDC-A'', EsmDeny (psm (arguments s))] else [])
     @ [EsmBurn]"
  by (simp add: thaw_cage_def Let_def)

lemma no_thaw_call_in_facilitation:
  "\<forall>c\<in>set (submitted b (facilitate_processing_period b)). \<not> is_thaw_call c"
  using set_submitted[of b "facilitate_processing_period b"] facilitation_calls[of _ b]
  by blast

text \<open>
  An invocation submits calls of the thaw phase only when \<open>live\<close> reads false, the counter
  equals 12, the flag is true and the block's timestamp has reached the thaw time the
  keeper has computed. What it then submits is, in this order: the heal of the Vow's Dai
  (only when that balance is positive), the global thaw, for each collateral its flow and
  deny calls, the two calls for the peg module when one is configured, and the burn last;
  or the part of this sequence before an exception.
\<close>

lemma thaw_phase_order:
  "(if \<not> end_live b \<and> confirmations s = 12 \<and> cageFacilitated s
        \<and> int (thawedCage b) \<le> block_timestamp b
    then snd (check_cage b s) =
           (let thaw_sequence =
                  (if 0 < vat_dai_vow b then [VowHeal (vat_dai_vow b)] else [])
                  @ [EndThaw]
                  @ concat (map flow_calls (get_collaterals b))
                  @ (if psm (arguments s) \<noteq> []
                     then [EndFlow ''PSM-USDC-A'', EsmDeny (psm (arguments s))] else [])
                  @ [EsmBurn]
            in case raises_after b of None \<Rightarrow> thaw_sequence | Some k \<Rightarrow> take k thaw_sequence)
    else (\<forall>c\<in>set (snd (check_cage b s)). \<not> is_thaw_call c))
   \<and> list_all is_flow_or_deny (concat (map flow_calls (get_collaterals b)))"
proof (intro conjI)
  show "list_all is_flow_or_deny (concat (map flow_calls (get_collaterals b)))"
    by (rule concat_flow_calls_kind)
  show "if \<not> end_live b \<and> confirmations s = 12 \<and> cageFacilitated s
        \<and> int (thawedCage b) \<le> block_timestamp b
    then snd (check_cage b s) =
           (let thaw_sequence =
                  (if 0 < vat_dai_vow b then [VowHeal (vat_dai_vow b)] else [])
                  @ [EndThaw]
                  @ concat (map flow_calls (get_collaterals b))
                  @ (if psm (arguments s) \<noteq> []
                     then [EndFlow ''PSM-USDC-A'', EsmDeny (psm (arguments s))] else [])
                  @ [EsmBurn]
            in case raises_after b of None \<Rightarrow> thaw_sequence | Some k \<Rightarrow> take k thaw_sequence)
    else (\<forall>c\<in>set (snd (check_cage b s)). \<not> is_thaw_call c)"
  proof (cases "\<not> end_live b \<and> confirmations s = 12 \<and> cageFacilitated s
        \<and> int (thawedCage b) \<le> block_timestamp b")
    case True
    then have "snd (check_cage b s) = submitted b (thaw_cage b s @ [EsmBurn])"
      by (simp add: check_cage_step)
    then have "snd (check_cage b s) =
           (let thaw_sequence =
                  (if 0 < vat_dai_vow b then [VowHeal (vat_dai_vow b)] else [])
                  @ [EndThaw]
                  @ concat (map flow_calls (get_collaterals b))
                  @ (if psm (arguments s) \<noteq> []
                     then [EndFlow ''PSM-USDC-A'', EsmDeny (psm (arguments s))] else [])
                  @ [EsmBurn]
            in case raises_after b of None \<Rightarrow> thaw_sequence | Some k \<Rightarrow> take k thaw_sequence)"
      by (simp only: thaw_cage_order submitted_def Let_def)
    then show ?thesis
      by (simp only: if_P[OF True])
  next
    case False
    have "\<forall>c\<in>set (snd (check_cage b s)). \<not> is_thaw_call c"
      using False no_thaw_call_in_facilitation[of b]
      by (auto simp: check_cage_step)
    then show ?thesis
      by (simp only: if_not_P[OF False])
  qed
qed

text \<open>
  Where \<open>when + wait\<close> is below \<open>2 ^ 53\<close> the computed thaw time is that sum, and a call of
  the thaw phase is submitted only at or after it.
\<close>

lemma thaw_gating_exact:
  "total_seconds (end_when b) + unat (end_wait b) < 2 ^ 53 \<and> c \<in> set (snd (check_cage b s))
     \<and> is_thaw_call c \<Longrightarrow>
   int (total_seconds (end_when b) + unat (end_wait b)) \<le> block_timestamp b"
proof -
  assume a: "total_seconds (end_when b) + unat (end_wait b) < 2 ^ 53
     \<and> c \<in> set (snd (check_cage b s)) \<and> is_thaw_call c"
  then have e: "thawedCage b = total_seconds (end_when b) + unat (end_wait b)"
    by (simp add: thawedCage_exact)
  show ?thesis
  proof (rule ccontr)
    assume "\<not> int (total_seconds (end_when b) + unat (end_wait b)) \<le> block_timestamp b"
    then have "\<not> (\<not> end_live b \<and> confirmations s = 12 \<and> cageFacilitated s
        \<and> int (thawedCage b) \<le> block_timestamp b)"
      using e by simp
    then have "\<forall>c\<in>set (snd (check_cage b s)). \<not> is_thaw_call c"
      using thaw_phase_order[of b s] by (simp only: if_not_P) simp
    with a show False by blast
  qed
qed




text \<open>
  In the other direction the keeper can be late: with \<open>wait = 2 ^ 53 + 3\<close> the computed
  thaw time is \<open>2 ^ 53 + 1004\<close>, and the block at \<open>when + wait = 2 ^ 53 + 1003\<close> submits
  nothing.
\<close>

lemma late_chain_reads:
  "end_live late_chain = False"
  "total_seconds (end_when late_chain) = 1000"
  "unat (end_wait late_chain) = 9007199254740995"
  "block_timestamp late_chain = 9007199254741995"
  by (simp_all add: late_chain_def ex_chain_def datetime_of_seconds_inverse)

lemma late_chain_thawedCage: "thawedCage late_chain = 9007199254741996"
  by (simp add: thawedCage_def Let_def float_add_int_def timestamp_exact late_chain_reads
      to_float_rounds_up to_float_even')

lemma no_thaw_when_wait_is_over:
  "block_timestamp late_chain
     = int (total_seconds (end_when late_chain) + unat (end_wait late_chain))
   \<and> snd (check_cage late_chain facilitated_keeper) = []"
  by (simp add: check_cage_step late_chain_reads late_chain_thawedCage facilitated_keeper_fields)


section \<open>Caging the ilks\<close>

lemma facilitation_shape:
  "facilitate_processing_period b =
     yank_auctions (flaps (all_active_auctions b)) (flops (all_active_auctions b))
     @ map EndCage (map ilk_name
         (filter (\<lambda>c. ilk_name c \<noteq> ''SAI'' \<and> 0 < vat_Art b (ilk_name c)) (collaterals b)))
     @ (settle_calls b EndSnip (clips (all_active_auctions b))
        @ settle_calls b EndSkip (flips (all_active_auctions b))
        @ map (\<lambda>i. EndSkim (name (urn_ilk i)) (urn_address i))
            (get_underwater_urns b (map ilk_name (get_collaterals b))))"
  by (simp add: facilitate_processing_period_def Let_def get_collaterals_def vat_ilk_def conj_commute)

lemma yank_auctions_kind: "list_all is_yank (yank_auctions xs ys)"
  by (auto simp: yank_auctions_def list_all_iff)

lemma settle_calls_kind:
  "list_all is_settle_or_skim (settle_calls b EndSnip d)"
  "list_all is_settle_or_skim (settle_calls b EndSkip d)"
  by (auto simp: settle_calls_def list_all_iff)

text \<open>
  Claim C8, amended. The facilitation work list is: yank calls only; then one
  \<^verbatim>\<open>End.cage\<close> for every collateral of the deployment whose name is not SAI and whose
  \<open>Art\<close> in the Vat is positive, in the deployment's order; then snip, skip and skim calls
  only. A collateral named SAI is not caged, whatever its debt.
\<close>

theorem cage_after_yank_before_settle:
  "\<exists>yanks rest.
     facilitate_processing_period b =
       yanks
       @ map EndCage (map ilk_name
           (filter (\<lambda>c. ilk_name c \<noteq> ''SAI'' \<and> 0 < vat_Art b (ilk_name c)) (collaterals b)))
       @ rest
     \<and> list_all is_yank yanks \<and> list_all is_settle_or_skim rest"
proof (intro exI conjI)
  show "facilitate_processing_period b =
     yank_auctions (flaps (all_active_auctions b)) (flops (all_active_auctions b))
     @ map EndCage (map ilk_name
         (filter (\<lambda>c. ilk_name c \<noteq> ''SAI'' \<and> 0 < vat_Art b (ilk_name c)) (collaterals b)))
     @ (settle_calls b EndSnip (clips (all_active_auctions b))
        @ settle_calls b EndSkip (flips (all_active_auctions b))
        @ map (\<lambda>i. EndSkim (name (urn_ilk i)) (urn_address i))
            (get_underwater_urns b (map ilk_name (get_collaterals b))))"
    by (rule facilitation_shape)
  show "list_all is_yank (yank_auctions (flaps (all_active_auctions b)) (flops (all_active_auctions b)))"
    by (rule yank_auctions_kind)
  show "list_all is_settle_or_skim
     (settle_calls b EndSnip (clips (all_active_auctions b))
        @ settle_calls b EndSkip (flips (all_active_auctions b))
        @ map (\<lambda>i. EndSkim (name (urn_ilk i)) (urn_address i))
            (get_underwater_urns b (map ilk_name (get_collaterals b))))"
    by (simp add: settle_calls_kind) (simp add: list_all_iff)
qed

text \<open>
  The claim as stated fails for SAI: in the example it has a positive \<open>Art\<close>, and no
  \<^verbatim>\<open>End.cage\<close> is submitted for it.
\<close>

theorem cage_counterexample:
  "collaterals ex_chain ! 1 = \<lparr>ilk_name = ''SAI'', clipper = None, flipper = None\<rparr>
   \<and> 0 < vat_Art ex_chain ''SAI''
   \<and> EndCage ''SAI'' \<notin> set (facilitate_processing_period ex_chain)"
  by (simp add: ex_facilitation) (simp add: ex_chain_def ex_collaterals_def)

section \<open>Flow and deny\<close>

lemma get_collaterals_member:
  "c \<in> set (get_collaterals b) \<longleftrightarrow>
     c \<in> set (collaterals b) \<and> ilk_name c \<noteq> ''SAI'' \<and> 0 < vat_Art b (ilk_name c)"
  by (auto simp: get_collaterals_def vat_ilk_def)

text \<open>
  Claim C9, amended. For every collateral of the deployment whose name is not SAI and
  whose \<open>Art\<close> in the Vat is positive, the thaw phase submits \<^verbatim>\<open>End.flow\<close> for its ilk,
  followed by \<^verbatim>\<open>ESM.deny\<close> for its clipper when it has one and by \<^verbatim>\<open>ESM.deny\<close> for its
  flipper when it has one. Collaterals that \<^verbatim>\<open>get_collaterals\<close> leaves out (SAI, and those
  without debt) are not promised either call.
\<close>

theorem thaw_flow_and_deny:
  "c \<in> set (collaterals b) \<and> ilk_name c \<noteq> ''SAI'' \<and> 0 < vat_Art b (ilk_name c) \<Longrightarrow>
     \<exists>before after.
       thaw_cage b s =
         before
         @ [EndFlow (ilk_name c)]
         @ (case clipper c of Some k \<Rightarrow> [EsmDeny (contract_address k)] | None \<Rightarrow> [])
         @ (case flipper c of Some f \<Rightarrow> [EsmDeny (contract_address f)] | None \<Rightarrow> [])
         @ after"
proof -
  assume "c \<in> set (collaterals b) \<and> ilk_name c \<noteq> ''SAI'' \<and> 0 < vat_Art b (ilk_name c)"
  then have "c \<in> set (get_collaterals b)" by (simp add: get_collaterals_member)
  then obtain xs ys where g: "get_collaterals b = xs @ c # ys"
    by (auto simp: in_set_conv_decomp)
  define before where
    "before = (if 0 < vat_dai_vow b then [VowHeal (vat_dai_vow b)] else []) @ [EndThaw]
                @ concat (map flow_calls xs)"
  define after where
    "after = concat (map flow_calls ys)
               @ (if psm (arguments s) \<noteq> []
                  then [EndFlow ''PSM-USDC-A'', EsmDeny (psm (arguments s))] else [])"
  have "thaw_cage b s = before @ flow_calls c @ after"
    by (simp add: thaw_cage_def Let_def g before_def after_def)
  then have "thaw_cage b s =
         before
         @ [EndFlow (ilk_name c)]
         @ (case clipper c of Some k \<Rightarrow> [EsmDeny (contract_address k)] | None \<Rightarrow> [])
         @ (case flipper c of Some f \<Rightarrow> [EsmDeny (contract_address f)] | None \<Rightarrow> [])
         @ after"
    by (simp add: flow_calls_def)
  then show ?thesis by blast
qed

theorem thaw_flow_and_deny_witness:
  "(collaterals thaw_chain ! 0 \<in> set (collaterals thaw_chain)
      \<and> ilk_name (collaterals thaw_chain ! 0) \<noteq> ''SAI''
      \<and> 0 < vat_Art thaw_chain (ilk_name (collaterals thaw_chain ! 0)))
   \<and> collaterals thaw_chain ! 0 = \<lparr>ilk_name = ''ETH-A'', clipper = None, flipper = Some eth_flipper\<rparr>
   \<and> (\<exists>before after.
        thaw_cage thaw_chain facilitated_keeper =
          before @ [EndFlow ''ETH-A''] @ [] @ [EsmDeny (contract_address eth_flipper)] @ after)"
proof -
  have c: "collaterals thaw_chain ! 0 = \<lparr>ilk_name = ''ETH-A'', clipper = None, flipper = Some eth_flipper\<rparr>"
    by (simp add: thaw_chain_def ex_chain_def ex_collaterals_def)
  have h: "collaterals thaw_chain ! 0 \<in> set (collaterals thaw_chain)
      \<and> ilk_name (collaterals thaw_chain ! 0) \<noteq> ''SAI''
      \<and> 0 < vat_Art thaw_chain (ilk_name (collaterals thaw_chain ! 0))"
    by (simp add: thaw_chain_def ex_chain_def ex_collaterals_def)
  have "\<exists>before after.
        thaw_cage thaw_chain facilitated_keeper =
          before
          @ [EndFlow (ilk_name (collaterals thaw_chain ! 0))]
          @ (case clipper (collaterals thaw_chain ! 0) of
               Some k \<Rightarrow> [EsmDeny (contract_address k)] | None \<Rightarrow> [])
          @ (case flipper (collaterals thaw_chain ! 0) of
               Some f \<Rightarrow> [EsmDeny (contract_address f)] | None \<Rightarrow> [])
          @ after"
    by (rule thaw_flow_and_deny[OF h])
  then have e: "\<exists>before after.
        thaw_cage thaw_chain facilitated_keeper =
          before @ [EndFlow ''ETH-A''] @ [] @ [EsmDeny (contract_address eth_flipper)] @ after"
    unfolding c by simp
  show ?thesis by (rule conjI[OF h conjI[OF c e]])
qed

text \<open>
  The claim as stated fails for a collateral without debt: USDC-A has a flipper, and the
  thaw phase submits neither the flow of USDC-A nor the deny of its flipper.
\<close>

theorem thaw_flow_counterexample:
  "collaterals thaw_chain ! 3 = \<lparr>ilk_name = ''USDC-A'', clipper = None, flipper = Some usdc_flipper\<rparr>
   \<and> EndFlow ''USDC-A'' \<notin> set (thaw_cage thaw_chain facilitated_keeper)
   \<and> EsmDeny (contract_address usdc_flipper) \<notin> set (thaw_cage thaw_chain facilitated_keeper)"
  by (simp add: ex_thaw) (simp add: thaw_chain_def ex_chain_def ex_collaterals_def usdc_flipper_def)

section \<open>The error budget\<close>

text \<open>
  No invocation changes \<open>errors\<close> or \<open>max_errors\<close>; so a keeper that is below its ceiling
  stays below it and never terminates, whatever its transactions do. At the ceiling,
  \<^verbatim>\<open>process_block\<close> terminates the lifecycle and does no other work.
\<close>

lemma run_errors:
  "errors (fst (run bs s)) = errors s \<and> max_errors (fst (run bs s)) = max_errors s"
proof (induction bs arbitrary: s)
  case Nil
  then show ?case by simp
next
  case (Cons b bs)
  obtain s' cs where pb: "process_block b s = (s', cs)" by (cases "process_block b s")
  then have "errors s' = errors s \<and> max_errors s' = max_errors s"
    using process_block_errors[of b s] by simp
  with Cons.IH[of s'] pb show ?case
    by (cases "run bs s'") simp
qed

lemma run_never_terminates:
  "errors s < max_errors s \<and> \<not> terminated s \<Longrightarrow> \<not> terminated (fst (run bs s))"
proof (induction bs arbitrary: s)
  case Nil
  then show ?case by simp
next
  case (Cons b bs)
  obtain s' cs where pb: "process_block b s = (s', cs)" by (cases "process_block b s")
  then have "s' = fst (check_cage b s)"
    using Cons.prems by (simp add: process_block_working)
  then have "errors s' < max_errors s' \<and> \<not> terminated s'"
    using Cons.prems by (simp add: check_cage_fields)
  with Cons.IH[of s'] Cons.prems pb show ?case
    by (cases "run bs s'") simp
qed

lemma process_block_at_ceiling:
  "max_errors s \<le> errors s \<Longrightarrow> process_block b s = (s\<lparr>terminated := True\<rparr>, [])"
  by (simp add: process_block_def)

text \<open>
  Claim C4, on the code. With \<^verbatim>\<open>--max-errors 1\<close>, the block that facilitates submits seven
  transactions, and every one of them fails; the error counter is still 0 afterwards, and
  the keeper has not terminated two blocks later.
\<close>

theorem failed_calls_not_counted:
  "max_errors final_keeper = 1
   \<and> errors final_keeper = 0
   \<and> snd (process_block failing_chain final_keeper) =
       [FlapYank 2, FlopYank 1, EndCage ''ETH-A'', EndCage ''WBTC-A'', EndSnip ''WBTC-A'' 4,
        EndSkip ''ETH-A'' 1, EndSkim ''ETH-A'' ''0xU2'']
   \<and> list_all (tx_fails failing_chain) (snd (process_block failing_chain final_keeper))
   \<and> errors (fst (process_block failing_chain final_keeper)) = 0
   \<and> \<not> terminated (fst (run [failing_chain, failing_chain, failing_chain] final_keeper))"
proof -
  have p: "snd (process_block failing_chain final_keeper) = facilitate_processing_period ex_chain"
    by (simp add: process_block_working check_cage_step final_keeper_fields failing_chain_reads
        submitted_def failing_facilitation)
  have t: "\<not> terminated (fst (run [failing_chain, failing_chain, failing_chain] final_keeper))"
    by (rule run_never_terminates) (simp add: final_keeper_fields)
  show ?thesis
    using t by (simp add: p ex_facilitation final_keeper_fields failing_chain_reads
        process_block_errors del: run.simps)
qed

end
